theory Spec2Isabelle
  imports Main
begin

section \<open>Data model of group-permissions.tsx\<close>

text \<open>
  The component keeps a forest of \<open>FileOrFolder\<close> nodes (\<open>data\<close>) and a map of
  pending permission changes (\<open>pendingChanges\<close>). An optional field of the
  TypeScript type is an \<open>option\<close>: \<open>None\<close> is \<open>undefined\<close>. An empty array is truthy
  in JavaScript, so \<open>Some []\<close> and \<open>None\<close> are told apart wherever the source tests
  \<open>item.subItems\<close>.
\<close>

datatype ItemType = DATAROOM_DOCUMENT | DATAROOM_FOLDER

text \<open>The pair \<open>{view, download}\<close> of \<open>updatedPermissions\<close>; the \<open>permissions\<close> of a node
  add the optional \<open>partialView\<close>, an entry of \<open>ItemPermission\<close> adds the item type.\<close>

record ViewDownload =
  view :: bool
  download :: bool

record Permissions = ViewDownload +
  partialView :: "bool option"

record ItemPermissionEntry = ViewDownload +
  entryItemType :: ItemType

datatype FileOrFolder =
  FileOrFolder
    (item_id: string)
    (name: string)
    (subItems: "FileOrFolder list option")
    (permissions: Permissions)
    (itemType: ItemType)
    (documentId: "string option")

type_synonym ItemPermission = "string \<rightharpoonup> ItemPermissionEntry"

record ExpandableTable =
  data :: "FileOrFolder list"
  pendingChanges :: ItemPermission

text \<open>\<open>item.subItems || []\<close>: the children of a node, none when the field is undefined.\<close>

definition children :: "FileOrFolder \<Rightarrow> FileOrFolder list" where
  "children item = (case subItems item of None \<Rightarrow> [] | Some subs \<Rightarrow> subs)"

text \<open>\<open>xs.some(subItem => subItem.permissions.view)\<close> and \<open>xs.every(...)\<close>.\<close>

definition someViewable :: "FileOrFolder list \<Rightarrow> bool" where
  "someViewable xs = list_ex (\<lambda>subItem. view (permissions subItem)) xs"

definition allViewable :: "FileOrFolder list \<Rightarrow> bool" where
  "allViewable xs = list_all (\<lambda>subItem. view (permissions subItem)) xs"

section \<open>updatePermissions\<close>

text \<open>The \<open>for\<close> loop of \<open>findItemAndParents\<close>, with its two early returns.\<close>

fun findItemAndParents ::
  "FileOrFolder list \<Rightarrow> string \<Rightarrow> FileOrFolder list \<Rightarrow> (FileOrFolder \<times> FileOrFolder list) option"
where
  "findItemAndParents [] targetId parents = None"
| "findItemAndParents (FileOrFolder i n s p ty d # rest) targetId parents =
     (if i = targetId then Some (FileOrFolder i n s p ty d, parents)
      else case s of
        None \<Rightarrow> findItemAndParents rest targetId parents
      | Some subs \<Rightarrow>
          (case findItemAndParents subs targetId (parents @ [FileOrFolder i n s p ty d]) of
             Some result \<Rightarrow> Some result
           | None \<Rightarrow> findItemAndParents rest targetId parents))"

text \<open>The requested pair read from the toggle group's value, then the two special cases.\<close>

definition updatedPermissions :: "string list \<Rightarrow> FileOrFolder \<Rightarrow> ViewDownload" where
  "updatedPermissions newPermissions item =
     (let v = (''view'' \<in> set newPermissions);
          dl = (''download'' \<in> set newPermissions)
      in if \<not> v \<and> download (permissions item) then \<lparr>view = v, download = False\<rparr>
         else if dl \<and> \<not> v then \<lparr>view = True, download = dl\<rparr>
         else \<lparr>view = v, download = dl\<rparr>)"

fun updateSubItems :: "FileOrFolder list \<Rightarrow> bool \<Rightarrow> FileOrFolder list" where
  "updateSubItems [] viewState = []"
| "updateSubItems (FileOrFolder i n s p ty d # rest) viewState =
     FileOrFolder i n
       (case s of None \<Rightarrow> None | Some subs \<Rightarrow> Some (updateSubItems subs viewState))
       (p\<lparr>view := viewState, partialView := Some False, download := download p \<and> viewState\<rparr>)
       ty d
     # updateSubItems rest viewState"

text \<open>The two non-recursive object literals of \<open>updateItemInTree\<close>: the edited item
  itself, and an item that is one of \<open>parents\<close>, given its updated sub-items.\<close>

definition updatedItem :: "ViewDownload \<Rightarrow> FileOrFolder \<Rightarrow> FileOrFolder" where
  "updatedItem up currentItem =
     (let perms = \<lparr>view = view up, download = download up, partialView = Some False\<rparr>
      in if itemType currentItem = DATAROOM_FOLDER
         then FileOrFolder (item_id currentItem) (name currentItem)
                (Some (updateSubItems (children currentItem) (view up)))
                perms (itemType currentItem) (documentId currentItem)
         else FileOrFolder (item_id currentItem) (name currentItem) (subItems currentItem)
                perms (itemType currentItem) (documentId currentItem))"

definition updatedParent :: "FileOrFolder \<Rightarrow> FileOrFolder list \<Rightarrow> FileOrFolder" where
  "updatedParent currentItem updatedSubItems =
     (let someSubItemViewable = someViewable updatedSubItems;
          allSubItemsViewable = allViewable updatedSubItems
      in FileOrFolder (item_id currentItem) (name currentItem) (Some updatedSubItems)
           \<lparr>view = someSubItemViewable,
            download = download (permissions currentItem) \<and> someSubItemViewable,
            partialView = Some (someSubItemViewable \<and> \<not> allSubItemsViewable)\<rparr>
           (itemType currentItem) (documentId currentItem))"

fun updateItemInTree ::
  "string \<Rightarrow> FileOrFolder list \<Rightarrow> ViewDownload \<Rightarrow> FileOrFolder list \<Rightarrow> FileOrFolder list"
where
  "updateItemInTree targetId parents up [] = []"
| "updateItemInTree targetId parents up (FileOrFolder i n s p ty d # rest) =
     (if i = targetId then updatedItem up (FileOrFolder i n s p ty d)
      else if list_ex (\<lambda>parent. item_id parent = i) parents
      then updatedParent (FileOrFolder i n s p ty d)
             (case s of None \<Rightarrow> [] | Some subs \<Rightarrow> updateItemInTree targetId parents up subs)
      else case s of
             None \<Rightarrow> FileOrFolder i n s p ty d
           | Some subs \<Rightarrow>
               FileOrFolder i n (Some (updateItemInTree targetId parents up subs)) p ty d)
     # updateItemInTree targetId parents up rest"

text \<open>\<open>collectSubItemChanges\<close> writes into the \<open>changes\<close> object of \<open>collectChanges\<close>;
  here the object is passed in and returned.\<close>

fun collectSubItemChanges ::
  "ViewDownload \<Rightarrow> FileOrFolder list \<Rightarrow> ItemPermission \<Rightarrow> ItemPermission"
where
  "collectSubItemChanges up [] changes = changes"
| "collectSubItemChanges up (FileOrFolder i n s p ty d # rest) changes =
     (let changes1 = changes(i \<mapsto>
            \<lparr>view = view up, download = download p \<and> view up, entryItemType = ty\<rparr>);
          changes2 = (case s of None \<Rightarrow> changes1
                      | Some subs \<Rightarrow> collectSubItemChanges up subs changes1)
      in collectSubItemChanges up rest changes2)"

text \<open>The two \<open>forEach\<close> loops over \<open>parents\<close>.\<close>

fun parentsViewable :: "FileOrFolder list \<Rightarrow> ItemPermission \<Rightarrow> ItemPermission" where
  "parentsViewable [] changes = changes"
| "parentsViewable (parent # rest) changes =
     parentsViewable rest (changes(item_id parent \<mapsto>
        \<lparr>view = True, download = download (permissions parent),
         entryItemType = itemType parent\<rparr>))"

fun parentsRecalculated ::
  "ViewDownload \<Rightarrow> FileOrFolder \<Rightarrow> FileOrFolder list \<Rightarrow> ItemPermission \<Rightarrow> ItemPermission"
where
  "parentsRecalculated up item [] changes = changes"
| "parentsRecalculated up item (parent # rest) changes =
     (let someSubItemViewable =
            (case subItems parent of
               None \<Rightarrow> False
             | Some subs \<Rightarrow>
                 list_ex (\<lambda>subItem. if item_id subItem = item_id item then view up
                                     else view (permissions subItem)) subs)
      in parentsRecalculated up item rest (changes(item_id parent \<mapsto>
           \<lparr>view = someSubItemViewable,
            download = download (permissions parent) \<and> someSubItemViewable,
            entryItemType = itemType parent\<rparr>)))"

definition collectChanges ::
  "ViewDownload \<Rightarrow> FileOrFolder \<Rightarrow> FileOrFolder list \<Rightarrow> ItemPermission"
where
  "collectChanges up item parents =
     (let changes = [item_id item \<mapsto>
            \<lparr>view = view up, download = download up, entryItemType = itemType item\<rparr>];
          changes1 = (case subItems item of None \<Rightarrow> changes
                      | Some subs \<Rightarrow> collectSubItemChanges up subs changes)
      in if view up then parentsViewable parents changes1
         else parentsRecalculated up item (rev parents) changes1)"

text \<open>
  One call of \<open>updatePermissions(id, newPermissions)\<close>, on the state of the component
  at that render: \<open>prevData\<close> of the \<open>setData\<close> updater is the \<open>data\<close> the callback
  closed over. The function returns no value; a missing item returns early.
\<close>

definition updatePermissions :: "ExpandableTable \<Rightarrow> string \<Rightarrow> string list \<Rightarrow> ExpandableTable" where
  "updatePermissions st targetId newPermissions =
     (case findItemAndParents (data st) targetId [] of
        None \<Rightarrow> st
      | Some (item, parents) \<Rightarrow>
          (let up = updatedPermissions newPermissions item
           in st\<lparr>data := updateItemInTree targetId parents up (data st),
                 pendingChanges := pendingChanges st ++ collectChanges up item parents\<rparr>))"

section \<open>saveChanges\<close>

text \<open>
  The request of \<open>saveChanges\<close> either resolves with \<open>response.ok\<close>, resolves with a
  response that is not ok (the source throws, and catches), or rejects (caught too).
  What a call leaves behind is the requests it has sent (the \<open>permissions\<close> of each
  body; \<open>dataroomId\<close> and \<open>groupId\<close> are fixed), the toast it shows and the state.
  The one \<open>fetch\<close> is issued before the outcome is known, and neither branch issues
  another.
\<close>

datatype FetchOutcome = ResponseOk | ResponseNotOk | FetchRejected

datatype Toast = ToastSuccess | ToastError

record SaveEffects =
  posted :: "ItemPermission list"
  toast :: Toast
  after :: ExpandableTable

definition saveChanges :: "FetchOutcome \<Rightarrow> ItemPermission \<Rightarrow> ExpandableTable \<Rightarrow> SaveEffects" where
  "saveChanges outcome changes st =
     (case outcome of
        ResponseOk \<Rightarrow>
          \<lparr>posted = [changes], toast = ToastSuccess, after = st\<lparr>pendingChanges := Map.empty\<rparr>\<rparr>
      | ResponseNotOk \<Rightarrow> \<lparr>posted = [changes], toast = ToastError, after = st\<rparr>
      | FetchRejected \<Rightarrow> \<lparr>posted = [changes], toast = ToastError, after = st\<rparr>)"

section \<open>buildTree\<close>

text \<open>
  \<open>items\<close> is \<open>any[]\<close>: the fields the function reads are \<open>id\<close>, \<open>parentId\<close>,
  \<open>folderId\<close>, \<open>name\<close>, \<open>document\<close> and \<open>documents\<close>. \<open>parentId\<close> and \<open>folderId\<close> are
  compared with \<open>===\<close>, which tells \<open>undefined\<close> from \<open>null\<close>. An entry of
  \<open>folder.documents\<close> is taken to carry its \<open>document\<close> (the source reads
  \<open>doc.document.id\<close> without a test).
\<close>

datatype 'a Nullable = Undefined | Null | Value 'a

record DocumentRef =
  doc_id :: string
  doc_name :: string

record FolderDocument =
  fd_id :: string
  fd_document :: DocumentRef

record TreeItem =
  ti_id :: string
  ti_parentId :: "string Nullable"
  ti_folderId :: "string Nullable"
  ti_name :: string
  ti_document :: "DocumentRef option"
  ti_documents :: "FolderDocument list option"

record ViewerGroupAccessControls =
  itemId :: string
  canView :: bool
  canDownload :: bool

definition getPermissions :: "ViewerGroupAccessControls list \<Rightarrow> string \<Rightarrow> Permissions" where
  "getPermissions perms i =
     (case find (\<lambda>p. itemId p = i) perms of
        None \<Rightarrow> \<lparr>view = False, download = False, partialView = Some False\<rparr>
      | Some permission \<Rightarrow>
          \<lparr>view = canView permission, download = canDownload permission,
           partialView = Some False\<rparr>)"

text \<open>\<open>item.parentId === parentId\<close>, where the parameter is a string or \<open>null\<close>.\<close>

definition parentIs :: "TreeItem \<Rightarrow> string option \<Rightarrow> bool" where
  "parentIs item parentId =
     (case parentId of None \<Rightarrow> ti_parentId item = Null
      | Some pid \<Rightarrow> ti_parentId item = Value pid)"

definition folderDocuments :: "ViewerGroupAccessControls list \<Rightarrow> TreeItem \<Rightarrow> FileOrFolder list" where
  "folderDocuments perms folder =
     map (\<lambda>doc. FileOrFolder (fd_id doc) (doc_name (fd_document doc)) None
                  (getPermissions perms (fd_id doc)) DATAROOM_DOCUMENT
                  (Some (doc_id (fd_document doc))))
         (case ti_documents folder of None \<Rightarrow> [] | Some docs \<Rightarrow> docs)"

text \<open>The body of the first \<open>forEach\<close>, once the recursive call has returned \<open>subItems\<close>.\<close>

definition folderNode ::
  "ViewerGroupAccessControls list \<Rightarrow> TreeItem \<Rightarrow> FileOrFolder list \<Rightarrow> FileOrFolder"
where
  "folderNode perms folder subs =
     (let allSubItems = subs @ folderDocuments perms folder;
          folderPermissions = getPermissions perms (ti_id folder);
          someSubItemViewable = someViewable allSubItems;
          allSubItemsViewable = allViewable allSubItems;
          view1 = (view folderPermissions \<or> someSubItemViewable);
          pv = (someSubItemViewable \<and> \<not> allSubItemsViewable);
          view2 = (view1 \<or> someViewable allSubItems)
      in FileOrFolder (ti_id folder) (ti_name folder) (Some allSubItems)
           \<lparr>view = view2, download = download folderPermissions, partialView = Some pv\<rparr>
           DATAROOM_FOLDER None)"

text \<open>The second \<open>filter\<close> and \<open>forEach\<close>: both disjuncts of the filter need
  \<open>item.document\<close>, which the body then reads.\<close>

definition levelDocuments ::
  "ViewerGroupAccessControls list \<Rightarrow> TreeItem list \<Rightarrow> string option \<Rightarrow> FileOrFolder list"
where
  "levelDocuments perms items parentId =
     List.map_filter
       (\<lambda>doc. case ti_document doc of
                 None \<Rightarrow> None
               | Some dref \<Rightarrow>
                   if parentIs doc parentId \<or> (parentId = None \<and> ti_folderId doc = Null)
                   then Some (FileOrFolder (ti_id doc) (doc_name dref) None
                                (getPermissions perms (ti_id doc)) DATAROOM_DOCUMENT
                                (Some (doc_id dref)))
                   else None)
       items"

text \<open>
  \<open>buildTree\<close> recurses on \<open>folder.id\<close>, which need not end (a folder that is its own
  parent): the fuel bounds the depth of the recursion, and \<open>None\<close> is running out of it.
\<close>

fun buildTree ::
  "nat \<Rightarrow> TreeItem list \<Rightarrow> ViewerGroupAccessControls list \<Rightarrow> string option
     \<Rightarrow> FileOrFolder list option"
where
  "buildTree 0 items perms parentId = None"
| "buildTree (Suc fuel) items perms parentId =
     (case those (map (\<lambda>folder.
                     case buildTree fuel items perms (Some (ti_id folder)) of
                       None \<Rightarrow> None
                     | Some subs \<Rightarrow> Some (folderNode perms folder subs))
                   (filter (\<lambda>item. parentIs item parentId \<and> ti_document item = None) items))
      of None \<Rightarrow> None
       | Some folders \<Rightarrow> Some (folders @ levelDocuments perms items parentId))"

section \<open>Notions used to state the properties\<close>

text \<open>All nodes of a forest, each before its descendants, in display order.\<close>

fun nodes :: "FileOrFolder list \<Rightarrow> FileOrFolder list" where
  "nodes [] = []"
| "nodes (FileOrFolder i n s p ty d # rest) =
     FileOrFolder i n s p ty d
     # (case s of None \<Rightarrow> [] | Some subs \<Rightarrow> nodes subs) @ nodes rest"

text \<open>A forest without its permissions: what an edit has to leave alone.\<close>

datatype Structure = Structure string string ItemType "string option" "Structure list"

fun structureOf :: "FileOrFolder list \<Rightarrow> Structure list" where
  "structureOf [] = []"
| "structureOf (FileOrFolder i n s p ty d # rest) =
     Structure i n ty d (case s of None \<Rightarrow> [] | Some subs \<Rightarrow> structureOf subs)
     # structureOf rest"

definition downloadImpliesView :: "FileOrFolder \<Rightarrow> bool" where
  "downloadImpliesView item = (\<not> download (permissions item) \<or> view (permissions item))"

text \<open>The normalisation in the words of the specification, on the requested pair and
  the previous download flag of the target.\<close>

definition normalization_spec :: "bool \<Rightarrow> bool \<Rightarrow> bool \<Rightarrow> bool \<times> bool" where
  "normalization_spec requestedView requestedDownload previousDownload =
     (if requestedView = False \<and> previousDownload = True then (requestedView, False)
      else if requestedDownload = True \<and> requestedView = False then (True, requestedDownload)
      else (requestedView, requestedDownload))"




text \<open>The object that one call of \<open>updatePermissions\<close> merges into \<open>pendingChanges\<close>:
  the result of \<open>collectChanges(item, parents)\<close>, nothing when the item is missing.\<close>

definition editDiff :: "ExpandableTable \<Rightarrow> string \<Rightarrow> string list \<Rightarrow> ItemPermission" where
  "editDiff st targetId newPermissions =
     (case findItemAndParents (data st) targetId [] of
        None \<Rightarrow> Map.empty
      | Some (item, parents) \<Rightarrow>
          collectChanges (updatedPermissions newPermissions item) item parents)"

text \<open>Nodes for the examples: a document and a folder whose name is their id.\<close>

definition exDoc :: "string \<Rightarrow> bool \<Rightarrow> bool \<Rightarrow> FileOrFolder" where
  "exDoc i v dl =
     FileOrFolder i i None \<lparr>view = v, download = dl, partialView = Some False\<rparr>
       DATAROOM_DOCUMENT (Some i)"

definition exFolder :: "string \<Rightarrow> bool \<Rightarrow> bool \<Rightarrow> bool \<Rightarrow> FileOrFolder list \<Rightarrow> FileOrFolder" where
  "exFolder i v dl pv subs =
     FileOrFolder i i (Some subs) \<lparr>view = v, download = dl, partialView = Some pv\<rparr>
       DATAROOM_FOLDER None"




section \<open>Auxiliary facts about forests\<close>

lemma forest_induct [case_names Nil Cons]:
  assumes "P []" and "\<And>x rest. P (children x) \<Longrightarrow> P rest \<Longrightarrow> P (x # rest)"
  shows "P xs"
proof (induction xs rule: nodes.induct)
  case 1
  show ?case by (rule assms(1))
next
  case (2 i n s p ty d rest)
  have "P (children (FileOrFolder i n s p ty d))"
  proof (cases s)
    case None
    then show ?thesis by (simp add: children_def assms(1))
  next
    case (Some subs)
    then show ?thesis using 2(1) by (simp add: children_def)
  qed
  then show ?case using 2(2) by (rule assms(2))
qed

lemma nodes_Cons: "nodes (x # rest) = x # nodes (children x) @ nodes rest"
  by (cases x) (simp add: children_def split: option.splits)

lemma find_Cons:
  "findItemAndParents (x # rest) t acc =
     (if item_id x = t then Some (x, acc)
      else case findItemAndParents (children x) t (acc @ [x]) of
             Some r \<Rightarrow> Some r
           | None \<Rightarrow> findItemAndParents rest t acc)"
  by (cases x) (simp add: children_def split: option.splits)

lemma updateSubItems_Cons:
  "updateSubItems (x # rest) v =
     FileOrFolder (item_id x) (name x) (map_option (\<lambda>subs. updateSubItems subs v) (subItems x))
       \<lparr>view = v, download = download (permissions x) \<and> v, partialView = Some False\<rparr>
       (itemType x) (documentId x)
     # updateSubItems rest v"
  by (cases x) (simp split: option.splits)

lemma updateItemInTree_Cons:
  "updateItemInTree t P up (x # rest) =
     (if item_id x = t then updatedItem up x
      else if item_id x \<in> item_id ` set P
      then updatedParent x (updateItemInTree t P up (children x))
      else FileOrFolder (item_id x) (name x)
             (map_option (updateItemInTree t P up) (subItems x))
             (permissions x) (itemType x) (documentId x))
     # updateItemInTree t P up rest"
  by (cases x) (auto simp add: children_def list_ex_iff split: option.splits)

lemma ids_updateSubItems:
  "map item_id (nodes (updateSubItems xs v)) = map item_id (nodes xs)"
  by (induction xs rule: forest_induct)
     (auto simp: nodes_Cons updateSubItems_Cons children_def split: option.splits)

lemma ids_updateItemInTree:
  "map item_id (nodes (updateItemInTree t P up xs)) = map item_id (nodes xs)"
  by (induction xs rule: forest_induct)
     (auto simp: nodes_Cons updateItemInTree_Cons children_def updatedItem_def updatedParent_def
        Let_def ids_updateSubItems split: option.splits)

lemma find_None_iff:
  "(findItemAndParents xs t acc = None) = (t \<notin> item_id ` set (nodes xs))"
proof (induction xs arbitrary: acc rule: forest_induct)
  case Nil
  show ?case by simp
next
  case (Cons x rest)
  show ?case
    using Cons.IH(1) [of "acc @ [x]"] Cons.IH(2) [of acc]
    by (cases "findItemAndParents (children x) t (acc @ [x])")
       (auto simp: find_Cons nodes_Cons)
qed

lemma find_prefix:
  "findItemAndParents xs t acc = Some (it, ps) \<Longrightarrow> \<exists>chain. ps = acc @ chain"
  by (induction xs arbitrary: acc rule: forest_induct)
     (fastforce simp: find_Cons split: option.splits if_splits)+

lemma find_target:
  "findItemAndParents xs t acc = Some (it, ps) \<Longrightarrow> it \<in> set (nodes xs) \<and> item_id it = t"
  by (induction xs arbitrary: acc rule: forest_induct)
     (fastforce simp: find_Cons nodes_Cons split: option.splits if_splits)+


lemma update_Cons_ex:
  "\<exists>x'. updateItemInTree t P up (x # rest) = x' # updateItemInTree t P up rest
     \<and> item_id x' = item_id x
     \<and> (item_id x = t \<longrightarrow> x' = updatedItem up x)
     \<and> (item_id x \<noteq> t \<longrightarrow> children x' = updateItemInTree t P up (children x))
     \<and> (item_id x \<noteq> t \<longrightarrow> item_id x \<in> item_id ` set P
          \<longrightarrow> x' = updatedParent x (updateItemInTree t P up (children x)))"
  by (simp add: updateItemInTree_Cons updatedItem_def updatedParent_def Let_def children_def
        split: option.splits)

lemma item_id_updatedItem [simp]: "item_id (updatedItem up x) = item_id x"
  by (simp add: updatedItem_def Let_def)

lemma find_update:
  assumes "findItemAndParents xs t acc = Some (it, acc @ chain)"
    and "item_id ` set chain \<subseteq> item_id ` set P"
  shows "findItemAndParents (updateItemInTree t P up xs) t acc' =
           Some (updatedItem up it,
                 acc' @ map (\<lambda>p. updatedParent p (updateItemInTree t P up (children p))) chain)"
  using assms
proof (induction xs arbitrary: acc acc' chain rule: forest_induct)
  case Nil
  then show ?case by simp
next
  case (Cons x rest)
  obtain x' where x':
    "updateItemInTree t P up (x # rest) = x' # updateItemInTree t P up rest"
    "item_id x' = item_id x"
    "item_id x = t \<Longrightarrow> x' = updatedItem up x"
    "item_id x \<noteq> t \<Longrightarrow> children x' = updateItemInTree t P up (children x)"
    "item_id x \<noteq> t \<Longrightarrow> item_id x \<in> item_id ` set P
       \<Longrightarrow> x' = updatedParent x (updateItemInTree t P up (children x))"
    using update_Cons_ex [of t P up x rest] by blast
  show ?case
  proof (cases "item_id x = t")
    case True
    with Cons.prems(1) have "it = x" "chain = []" by (simp_all add: find_Cons)
    with True x' show ?thesis by (simp add: find_Cons)
  next
    case False
    show ?thesis
    proof (cases "findItemAndParents (children x) t (acc @ [x])")
      case None
      with False Cons.prems(1) have "findItemAndParents rest t acc = Some (it, acc @ chain)"
        by (simp add: find_Cons)
      from Cons.IH(2) [OF this Cons.prems(2)]
      have rest: "findItemAndParents (updateItemInTree t P up rest) t acc' =
           Some (updatedItem up it,
                 acc' @ map (\<lambda>p. updatedParent p (updateItemInTree t P up (children p))) chain)" .
      from None have "t \<notin> item_id ` set (nodes (children x))"
        by (simp add: find_None_iff)
      then have "t \<notin> set (map item_id (nodes (updateItemInTree t P up (children x))))"
        by (simp add: ids_updateItemInTree)
      then have "findItemAndParents (updateItemInTree t P up (children x)) t (acc' @ [x']) = None"
        by (simp add: find_None_iff)
      with False x' rest show ?thesis by (simp add: find_Cons)
    next
      case (Some r)
      with False Cons.prems(1) have sub: "findItemAndParents (children x) t (acc @ [x]) = Some (it, acc @ chain)"
        by (simp add: find_Cons)
      from find_prefix [OF this] obtain c0 where c0: "chain = x # c0" by auto
      with sub have sub': "findItemAndParents (children x) t (acc @ [x]) = Some (it, (acc @ [x]) @ c0)"
        by simp
      from c0 Cons.prems(2) have inP: "item_id x \<in> item_id ` set P" and sub0: "item_id ` set c0 \<subseteq> item_id ` set P"
        by auto
      from Cons.IH(1) [OF sub' sub0, of "acc' @ [x']"] x'(1,2,4,5) False inP c0
      show ?thesis by (simp add: find_Cons)
    qed
  qed
qed

lemma chain_viewable:
  assumes "findItemAndParents xs t acc = Some (it, acc @ chain)"
    and "item_id ` set chain \<subseteq> item_id ` set P"
    and "view up"
  shows "someViewable (updateItemInTree t P up xs) \<and>
         (\<forall>p\<in>set chain. someViewable (updateItemInTree t P up (children p)))"
  using assms(1,2)
proof (induction xs arbitrary: acc chain rule: forest_induct)
  case Nil
  then show ?case by simp
next
  case (Cons x rest)
  obtain x' where x':
    "updateItemInTree t P up (x # rest) = x' # updateItemInTree t P up rest"
    "item_id x' = item_id x"
    "item_id x = t \<Longrightarrow> x' = updatedItem up x"
    "item_id x \<noteq> t \<Longrightarrow> children x' = updateItemInTree t P up (children x)"
    "item_id x \<noteq> t \<Longrightarrow> item_id x \<in> item_id ` set P
       \<Longrightarrow> x' = updatedParent x (updateItemInTree t P up (children x))"
    using update_Cons_ex [of t P up x rest] by blast
  show ?case
  proof (cases "item_id x = t")
    case True
    with Cons.prems(1) have "chain = []" by (simp add: find_Cons)
    with True x' assms(3) show ?thesis
      by (simp add: someViewable_def updatedItem_def Let_def)
  next
    case False
    show ?thesis
    proof (cases "findItemAndParents (children x) t (acc @ [x])")
      case None
      with False Cons.prems(1) have "findItemAndParents rest t acc = Some (it, acc @ chain)"
        by (simp add: find_Cons)
      from Cons.IH(2) [OF this Cons.prems(2)] x'(1) show ?thesis
        by (simp add: someViewable_def)
    next
      case (Some r)
      with False Cons.prems(1) have sub: "findItemAndParents (children x) t (acc @ [x]) = Some (it, acc @ chain)"
        by (simp add: find_Cons)
      from find_prefix [OF this] obtain c0 where c0: "chain = x # c0" by auto
      with sub have sub': "findItemAndParents (children x) t (acc @ [x]) = Some (it, (acc @ [x]) @ c0)"
        by simp
      from c0 Cons.prems(2) have inP: "item_id x \<in> item_id ` set P" and sub0: "item_id ` set c0 \<subseteq> item_id ` set P"
        by auto
      from Cons.IH(1) [OF sub' sub0] have ih:
        "someViewable (updateItemInTree t P up (children x))"
        "\<forall>p\<in>set c0. someViewable (updateItemInTree t P up (children p))"
        by simp_all
      from x'(5) [OF False inP] ih(1) have "view (permissions x')"
        by (simp add: updatedParent_def Let_def)
      with x'(1) ih c0 show ?thesis by (simp add: someViewable_def)
    qed
  qed
qed

lemma updateSubItems_idem:
  "updateSubItems (updateSubItems xs v) v = updateSubItems xs v"
  by (induction xs rule: forest_induct)
     (auto simp: updateSubItems_Cons children_def split: option.splits)

lemma update_parents_cong:
  "item_id ` set P = item_id ` set P' \<Longrightarrow>
   updateItemInTree t P up xs = updateItemInTree t P' up xs"
  by (induction xs rule: forest_induct)
     (auto simp: updateItemInTree_Cons children_def split: option.splits)

lemma update_idem:
  "updateItemInTree t P up (updateItemInTree t P up xs) = updateItemInTree t P up xs"
  by (induction xs rule: forest_induct)
     (auto simp: updateItemInTree_Cons children_def updatedItem_def updatedParent_def Let_def
        updateSubItems_idem split: option.splits)


lemma find_update_top:
  assumes "findItemAndParents xs t [] = Some (it, ps)"
  shows "findItemAndParents (updateItemInTree t ps up xs) t [] =
           Some (updatedItem up it,
                 map (\<lambda>p. updatedParent p (updateItemInTree t ps up (children p))) ps)"
  using find_update [of xs t "[]" it ps ps up "[]"] assms by simp

section \<open>Normalisation of the requested flags\<close>

text \<open>
  C4. The pair that an edit writes on its target is the requested pair after the two
  special cases: a request without view on a target that had download loses download;
  otherwise a request for download without view gains view. The target found in the
  tree after the edit carries exactly the pair the specification's normalisation gives.
\<close>

theorem updatedPermissions_normalized:
  assumes "findItemAndParents (data st) targetId [] = Some (item, parents)"
  shows "\<exists>item' parents'.
           findItemAndParents (data (updatePermissions st targetId newPermissions)) targetId []
             = Some (item', parents')
         \<and> (view (permissions item'), download (permissions item'))
             = normalization_spec (''view'' \<in> set newPermissions)
                 (''download'' \<in> set newPermissions) (download (permissions item))"
proof -
  let ?up = "updatedPermissions newPermissions item"
  have "(view (permissions (updatedItem ?up item)), download (permissions (updatedItem ?up item)))
          = normalization_spec (''view'' \<in> set newPermissions)
              (''download'' \<in> set newPermissions) (download (permissions item))"
    by (simp add: updatedItem_def updatedPermissions_def normalization_spec_def Let_def)
  with find_update_top [OF assms, of ?up] assms show ?thesis
    by (simp add: updatePermissions_def Let_def)
qed

theorem updatedPermissions_normalized_witness:
  "findItemAndParents
     (data (updatePermissions \<lparr>data = [exDoc ''a'' False False], pendingChanges = Map.empty\<rparr>
              ''a'' [''download''])) ''a'' []
   = Some (exDoc ''a'' True True, [])"
  using updatedPermissions_normalized
    [of "\<lparr>data = [exDoc ''a'' False False], pendingChanges = Map.empty\<rparr>" "''a''"
        "exDoc ''a'' False False" "[]" "[''download'']"]
  by (simp add: exDoc_def updatePermissions_def updatedPermissions_def updatedItem_def
        normalization_spec_def Let_def)

section \<open>A missing target\<close>

text \<open>
  C9 (as amended). When no item of the tree has the requested id, the call returns
  early: the tree and the pending changes are what they were, nothing is propagated
  and nothing is collected.
\<close>

theorem missing_target_noop:
  "findItemAndParents (data st) targetId [] = None
   \<Longrightarrow> updatePermissions st targetId newPermissions = st"
  by (simp add: updatePermissions_def)

theorem missing_target_noop_witness:
  "updatePermissions \<lparr>data = [exDoc ''a'' True False], pendingChanges = Map.empty\<rparr>
     ''zzz'' [''view'']
   = \<lparr>data = [exDoc ''a'' True False], pendingChanges = Map.empty\<rparr>"
  using missing_target_noop
    [of "\<lparr>data = [exDoc ''a'' True False], pendingChanges = Map.empty\<rparr>" "''zzz''" "[''view'']"]
  by (simp add: exDoc_def)

text \<open>
  The call returns no value, so nothing tells the caller that the item was missing: on
  the state below the call for a missing id and the call for an existing id leave
  exactly the same state behind.
\<close>

theorem missing_target_no_signal:
  "findItemAndParents [exDoc ''a'' True False] ''zzz'' [] = None
   \<and> findItemAndParents [exDoc ''a'' True False] ''a'' [] = Some (exDoc ''a'' True False, [])
   \<and> updatePermissions
        \<lparr>data = [exDoc ''a'' True False],
         pendingChanges = [''a'' \<mapsto> \<lparr>view = True, download = False,
                                      entryItemType = DATAROOM_DOCUMENT\<rparr>]\<rparr>
        ''zzz'' [''view'']
     = updatePermissions
        \<lparr>data = [exDoc ''a'' True False],
         pendingChanges = [''a'' \<mapsto> \<lparr>view = True, download = False,
                                      entryItemType = DATAROOM_DOCUMENT\<rparr>]\<rparr>
        ''a'' [''view'']"
  by (simp add: exDoc_def updatePermissions_def updatedPermissions_def updatedItem_def
        collectChanges_def Let_def)

section \<open>The edit changes permissions only\<close>

lemma structureOf_Cons:
  "structureOf (x # rest) =
     Structure (item_id x) (name x) (itemType x) (documentId x) (structureOf (children x))
     # structureOf rest"
  by (cases x) (simp add: children_def split: option.splits)

lemma structureOf_updateSubItems: "structureOf (updateSubItems xs v) = structureOf xs"
  by (induction xs rule: forest_induct)
     (auto simp: structureOf_Cons updateSubItems_Cons children_def split: option.splits)

lemma structureOf_updateItemInTree: "structureOf (updateItemInTree t P up xs) = structureOf xs"
  by (induction xs rule: forest_induct)
     (auto simp: structureOf_Cons updateItemInTree_Cons children_def updatedItem_def
        updatedParent_def Let_def structureOf_updateSubItems split: option.splits)

text \<open>
  C10. An edit changes permission fields only: the forest after \<open>updatePermissions\<close>
  has the same nodes in the same order, each with the id, name, item type, document id
  and children it had before.
\<close>

theorem edit_keeps_structure:
  "structureOf (data (updatePermissions st targetId newPermissions)) = structureOf (data st)"
  by (simp add: updatePermissions_def Let_def structureOf_updateItemInTree
        split: option.splits prod.splits)

section \<open>Download implies view\<close>

lemma inv_updateSubItems: "list_all downloadImpliesView (nodes (updateSubItems xs v))"
  by (induction xs rule: forest_induct)
     (auto simp: nodes_Cons updateSubItems_Cons children_def downloadImpliesView_def
        split: option.splits)

lemma inv_updateItemInTree:
  assumes "download up \<longrightarrow> view up"
  shows "list_all downloadImpliesView (nodes xs)
         \<Longrightarrow> list_all downloadImpliesView (nodes (updateItemInTree t P up xs))"
  using assms
  by (induction xs rule: forest_induct)
     (auto simp: nodes_Cons updateItemInTree_Cons children_def updatedItem_def
        updatedParent_def Let_def inv_updateSubItems downloadImpliesView_def
        split: option.splits)

lemma updatedPermissions_consistent:
  "download (updatedPermissions req item) \<longrightarrow> view (updatedPermissions req item)"
  by (simp add: updatedPermissions_def Let_def)

text \<open>
  C1 (as amended). If every node of the tree satisfies download implies view before an
  edit, every node satisfies it after the edit, whatever the target and the requested
  pair are.
\<close>

theorem edit_preserves_download_implies_view:
  assumes "list_all downloadImpliesView (nodes (data st))"
  shows "list_all downloadImpliesView (nodes (data (updatePermissions st targetId newPermissions)))"
  using assms
  by (auto simp: updatePermissions_def Let_def
        intro: inv_updateItemInTree [OF updatedPermissions_consistent]
        split: option.splits)

theorem edit_preserves_download_implies_view_witness:
  "list_all downloadImpliesView
     (nodes (data (updatePermissions
        \<lparr>data = [exFolder ''f'' True True False [exDoc ''a'' True True, exDoc ''b'' True False]],
         pendingChanges = Map.empty\<rparr> ''f'' [''download''])))"
  using edit_preserves_download_implies_view
    [of "\<lparr>data = [exFolder ''f'' True True False [exDoc ''a'' True True, exDoc ''b'' True False]],
         pendingChanges = Map.empty\<rparr>" "''f''" "[''download'']"]
  by (simp add: exDoc_def exFolder_def downloadImpliesView_def)

text \<open>
  Without the assumption the property fails: the edit rewrites the target, its
  descendants and its ancestors only, so a node elsewhere that had download without
  view still has it afterwards.
\<close>

theorem untouched_node_keeps_violation:
  "findItemAndParents [exDoc ''a'' False True, exDoc ''b'' False False] ''b'' []
     = Some (exDoc ''b'' False False, [])
   \<and> \<not> list_all downloadImpliesView
       (nodes (data (updatePermissions
          \<lparr>data = [exDoc ''a'' False True, exDoc ''b'' False False],
           pendingChanges = Map.empty\<rparr> ''b'' [''view''])))"
  by (simp add: exDoc_def updatePermissions_def updatedPermissions_def updatedItem_def
        downloadImpliesView_def Let_def)

text \<open>Such a tree is one that \<open>buildTree\<close> returns, when an override grants download
  without view: the flags of an override are copied as they are.\<close>

lemma buildTree_download_without_view:
  "buildTree 1
     [\<lparr>ti_id = ''a'', ti_parentId = Undefined, ti_folderId = Null, ti_name = ''a'',
       ti_document = Some \<lparr>doc_id = ''a'', doc_name = ''a''\<rparr>, ti_documents = None\<rparr>,
      \<lparr>ti_id = ''b'', ti_parentId = Undefined, ti_folderId = Null, ti_name = ''b'',
       ti_document = Some \<lparr>doc_id = ''b'', doc_name = ''b''\<rparr>, ti_documents = None\<rparr>]
     [\<lparr>itemId = ''a'', canView = False, canDownload = True\<rparr>]
     None
   = Some [exDoc ''a'' False True, exDoc ''b'' False False]"
  by (simp add: exDoc_def parentIs_def levelDocuments_def map_filter_def getPermissions_def)

section \<open>Propagation\<close>

lemma permissions_updateSubItems:
  "map permissions (nodes (updateSubItems xs v)) =
     map (\<lambda>d. \<lparr>view = v, download = download (permissions d) \<and> v, partialView = Some False\<rparr>)
       (nodes xs)"
  by (induction xs rule: forest_induct)
     (auto simp: nodes_Cons updateSubItems_Cons children_def split: option.splits)

text \<open>
  C5. When the target is a folder, every descendant of the target in the tree after the
  edit has the target's new view, partialView false, and for download its previous
  download and the new view; with the new view false every descendant has all three
  flags false. The descendants are the same nodes, in the same order, as before.
\<close>

theorem downward_propagation:
  assumes "findItemAndParents (data st) targetId [] = Some (item, parents)"
    and "itemType item = DATAROOM_FOLDER"
  shows "\<exists>item' parents'.
           findItemAndParents (data (updatePermissions st targetId newPermissions)) targetId []
             = Some (item', parents')
         \<and> map item_id (nodes (children item')) = map item_id (nodes (children item))
         \<and> map permissions (nodes (children item'))
             = map (\<lambda>d. \<lparr>view = view (updatedPermissions newPermissions item),
                          download = download (permissions d)
                                     \<and> view (updatedPermissions newPermissions item),
                          partialView = Some False\<rparr>)
                 (nodes (children item))
         \<and> (\<not> view (updatedPermissions newPermissions item)
              \<longrightarrow> list_all (\<lambda>d. permissions d
                                  = \<lparr>view = False, download = False, partialView = Some False\<rparr>)
                    (nodes (children item')))"
proof -
  let ?up = "updatedPermissions newPermissions item"
  have found: "findItemAndParents (data (updatePermissions st targetId newPermissions)) targetId []
      = Some (updatedItem ?up item,
              map (\<lambda>p. updatedParent p (updateItemInTree targetId parents ?up (children p))) parents)"
    using find_update_top [OF assms(1), of ?up] assms(1)
    by (simp add: updatePermissions_def Let_def)
  have ch: "children (updatedItem ?up item) = updateSubItems (children item) (view ?up)"
    using assms(2) by (simp add: updatedItem_def Let_def children_def)
  have ids: "map item_id (nodes (children (updatedItem ?up item)))
      = map item_id (nodes (children item))"
    by (simp add: ch ids_updateSubItems)
  have perms: "map permissions (nodes (children (updatedItem ?up item)))
      = map (\<lambda>d. \<lparr>view = view ?up, download = download (permissions d) \<and> view ?up,
                   partialView = Some False\<rparr>) (nodes (children item))"
    by (simp add: ch permissions_updateSubItems)
  have off: "\<not> view ?up \<longrightarrow> list_all (\<lambda>d. permissions d
                = \<lparr>view = False, download = False, partialView = Some False\<rparr>)
             (nodes (children (updatedItem ?up item)))"
  proof
    assume "\<not> view ?up"
    with perms have "map permissions (nodes (children (updatedItem ?up item)))
      = map (\<lambda>d. \<lparr>view = False, download = False, partialView = Some False\<rparr>)
          (nodes (children item))"
      by simp
    then have "\<forall>q\<in>set (map permissions (nodes (children (updatedItem ?up item)))).
        q = \<lparr>view = False, download = False, partialView = Some False\<rparr>"
      by auto
    then show "list_all (\<lambda>d. permissions d
                = \<lparr>view = False, download = False, partialView = Some False\<rparr>)
             (nodes (children (updatedItem ?up item)))"
      by (simp add: list_all_iff)
  qed
  from found ids perms off show ?thesis by blast
qed

theorem downward_propagation_witness:
  "findItemAndParents
     (data (updatePermissions
        \<lparr>data = [exFolder ''f'' True True True
                   [exFolder ''g'' True True False [exDoc ''a'' True True],
                    exDoc ''b'' False False]],
         pendingChanges = Map.empty\<rparr> ''f'' [])) ''f'' []
   = Some (exFolder ''f'' False False False
             [exFolder ''g'' False False False [exDoc ''a'' False False],
              exDoc ''b'' False False], [])"
  using downward_propagation
    [of "\<lparr>data = [exFolder ''f'' True True True
                   [exFolder ''g'' True True False [exDoc ''a'' True True],
                    exDoc ''b'' False False]],
         pendingChanges = Map.empty\<rparr>" "''f''"
        "exFolder ''f'' True True True
                   [exFolder ''g'' True True False [exDoc ''a'' True True],
                    exDoc ''b'' False False]" "[]" "[]"]
  by (simp add: exDoc_def exFolder_def updatePermissions_def updatedPermissions_def
        updatedItem_def children_def Let_def)

text \<open>
  C6. In the tree after the edit the ancestors of the target are the ancestors it had,
  each with the updated list of its children, its view the disjunction of its
  children's views, its partialView true when some but not all children are viewable,
  and its download the previous download and the new view. When the edit sets view on
  the target, every ancestor up to the root is viewable.
\<close>

theorem upward_propagation:
  assumes "findItemAndParents (data st) targetId [] = Some (item, parents)"
  shows "\<exists>item' parents'.
           findItemAndParents (data (updatePermissions st targetId newPermissions)) targetId []
             = Some (item', parents')
         \<and> list_all2
             (\<lambda>p p'. item_id p' = item_id p
                \<and> subItems p' = Some (updateItemInTree targetId parents
                                        (updatedPermissions newPermissions item) (children p))
                \<and> view (permissions p') = someViewable (children p')
                \<and> partialView (permissions p')
                    = Some (someViewable (children p') \<and> \<not> allViewable (children p'))
                \<and> download (permissions p')
                    = (download (permissions p) \<and> view (permissions p')))
             parents parents'
         \<and> (view (updatedPermissions newPermissions item)
              \<longrightarrow> list_all (\<lambda>p'. view (permissions p')) parents')"
proof -
  let ?up = "updatedPermissions newPermissions item"
  let ?f = "\<lambda>p. updatedParent p (updateItemInTree targetId parents ?up (children p))"
  have found: "findItemAndParents (data (updatePermissions st targetId newPermissions)) targetId []
      = Some (updatedItem ?up item, map ?f parents)"
    using find_update_top [OF assms, of ?up] assms
    by (simp add: updatePermissions_def Let_def)
  have rel: "list_all2
             (\<lambda>p p'. item_id p' = item_id p
                \<and> subItems p' = Some (updateItemInTree targetId parents ?up (children p))
                \<and> view (permissions p') = someViewable (children p')
                \<and> partialView (permissions p')
                    = Some (someViewable (children p') \<and> \<not> allViewable (children p'))
                \<and> download (permissions p')
                    = (download (permissions p) \<and> view (permissions p')))
             parents (map ?f parents)"
    by (simp add: list_all2_map2 list.rel_refl updatedParent_def Let_def children_def)
  have up: "view ?up \<longrightarrow> list_all (\<lambda>p'. view (permissions p')) (map ?f parents)"
  proof
    assume "view ?up"
    with chain_viewable [of "data st" targetId "[]" item parents parents ?up] assms
    have "\<forall>p\<in>set parents. someViewable (updateItemInTree targetId parents ?up (children p))"
      by simp
    then show "list_all (\<lambda>p'. view (permissions p')) (map ?f parents)"
      by (simp add: list_all_iff updatedParent_def Let_def)
  qed
  from found rel up show ?thesis by blast
qed

theorem upward_propagation_witness:
  "findItemAndParents
     (data (updatePermissions
        \<lparr>data = [exFolder ''r'' False True False
                   [exFolder ''f'' False False False [exDoc ''a'' False False],
                    exDoc ''b'' False False]],
         pendingChanges = Map.empty\<rparr> ''a'' [''view''])) ''a'' []
   = Some (exDoc ''a'' True False,
           [exFolder ''r'' True True True
              [exFolder ''f'' True False False [exDoc ''a'' True False],
               exDoc ''b'' False False],
            exFolder ''f'' True False False [exDoc ''a'' True False]])"
  using upward_propagation
    [of "\<lparr>data = [exFolder ''r'' False True False
                   [exFolder ''f'' False False False [exDoc ''a'' False False],
                    exDoc ''b'' False False]],
         pendingChanges = Map.empty\<rparr>" "''a''" "exDoc ''a'' False False"
        "[exFolder ''r'' False True False
                   [exFolder ''f'' False False False [exDoc ''a'' False False],
                    exDoc ''b'' False False],
          exFolder ''f'' False False False [exDoc ''a'' False False]]" "[''view'']"]
  by (simp add: exDoc_def exFolder_def updatePermissions_def updatedPermissions_def
        updatedItem_def updatedParent_def someViewable_def allViewable_def children_def Let_def)

section \<open>The collected changes\<close>

lemma collectSubItemChanges_Cons:
  "collectSubItemChanges up (x # rest) changes =
     collectSubItemChanges up rest
       (collectSubItemChanges up (children x)
          (changes(item_id x \<mapsto>
             \<lparr>view = view up, download = download (permissions x) \<and> view up,
              entryItemType = itemType x\<rparr>)))"
  by (cases x) (simp add: children_def Let_def split: option.splits)

lemma dom_collectSubItemChanges:
  "dom (collectSubItemChanges up xs changes) = dom changes \<union> item_id ` set (nodes xs)"
  by (induction xs arbitrary: changes rule: forest_induct)
     (auto simp: collectSubItemChanges_Cons nodes_Cons)

lemma dom_parentsViewable:
  "dom (parentsViewable ps changes) = dom changes \<union> item_id ` set ps"
  by (induction ps arbitrary: changes) auto

lemma dom_parentsRecalculated:
  "dom (parentsRecalculated up item ps changes) = dom changes \<union> item_id ` set ps"
  by (induction ps arbitrary: changes) (auto simp: Let_def)

lemma dom_collectChanges:
  "dom (collectChanges up item ps) =
     insert (item_id item) (item_id ` set (nodes (children item)) \<union> item_id ` set ps)"
  by (auto simp: collectChanges_def Let_def dom_collectSubItemChanges dom_parentsViewable
        dom_parentsRecalculated children_def split: option.splits)

lemma update_hd_permissions:
  "item_id x \<noteq> t \<Longrightarrow> item_id x \<notin> item_id ` set P
   \<Longrightarrow> permissions (hd (updateItemInTree t P up (x # rest))) = permissions x"
  by (simp add: updateItemInTree_Cons)

lemma updateSubItems_inside:
  "item_id ` set (nodes xs) \<subseteq> D \<Longrightarrow>
   list_all2 (\<lambda>old new. item_id new = item_id old
                \<and> (item_id old \<notin> D \<longrightarrow> permissions new = permissions old))
     (nodes xs) (nodes (updateSubItems xs v))"
proof (induction xs rule: forest_induct)
  case Nil
  show ?case by simp
next
  case (Cons x rest)
  from Cons.prems have "item_id x \<in> D" "item_id ` set (nodes (children x)) \<subseteq> D"
    "item_id ` set (nodes rest) \<subseteq> D"
    by (auto simp: nodes_Cons)
  with Cons.IH show ?case
    by (auto simp: nodes_Cons updateSubItems_Cons children_def intro!: list_all2_appendI
          split: option.splits)
qed

lemma update_outside:
  assumes "t \<in> D" and "item_id ` set P \<subseteq> D"
    and "\<forall>n\<in>set (nodes xs). item_id n = t \<longrightarrow> item_id ` set (nodes (children n)) \<subseteq> D"
  shows "list_all2 (\<lambda>old new. item_id new = item_id old
                \<and> (item_id old \<notin> D \<longrightarrow> permissions new = permissions old))
     (nodes xs) (nodes (updateItemInTree t P up xs))"
  using assms(3)
proof (induction xs rule: forest_induct)
  case Nil
  show ?case by simp
next
  case (Cons x rest)
  let ?R = "\<lambda>old new. item_id new = item_id old
                \<and> (item_id old \<notin> D \<longrightarrow> permissions new = permissions old)"
  obtain x' where x':
    "updateItemInTree t P up (x # rest) = x' # updateItemInTree t P up rest"
    "item_id x' = item_id x"
    "item_id x = t \<Longrightarrow> x' = updatedItem up x"
    "item_id x \<noteq> t \<Longrightarrow> children x' = updateItemInTree t P up (children x)"
    using update_Cons_ex [of t P up x rest] by blast
  from Cons.prems have pc: "\<forall>n\<in>set (nodes (children x)).
      item_id n = t \<longrightarrow> item_id ` set (nodes (children n)) \<subseteq> D"
    and pr: "\<forall>n\<in>set (nodes rest).
      item_id n = t \<longrightarrow> item_id ` set (nodes (children n)) \<subseteq> D"
    by (auto simp: nodes_Cons)
  have rest: "list_all2 ?R (nodes rest) (nodes (updateItemInTree t P up rest))"
    by (rule Cons.IH(2) [OF pr])
  have head: "?R x x'"
  proof (cases "item_id x \<in> D")
    case True
    with x'(2) show ?thesis by simp
  next
    case False
    with assms(1,2) have "item_id x \<noteq> t" "item_id x \<notin> item_id ` set P" by auto
    from update_hd_permissions [OF this, of up rest] x'(1,2) show ?thesis by simp
  qed
  have sub: "list_all2 ?R (nodes (children x)) (nodes (children x'))"
  proof (cases "item_id x = t")
    case False
    with x'(4) Cons.IH(1) [OF pc] show ?thesis by simp
  next
    case True
    with Cons.prems have inD: "item_id ` set (nodes (children x)) \<subseteq> D"
      by (simp add: nodes_Cons)
    show ?thesis
    proof (cases "itemType x = DATAROOM_FOLDER")
      case True
      with x'(3) [OF \<open>item_id x = t\<close>]
      have "children x' = updateSubItems (children x) (view up)"
        by (simp add: updatedItem_def Let_def children_def)
      with updateSubItems_inside [OF inD] show ?thesis by simp
    next
      case False
      with x'(3) [OF \<open>item_id x = t\<close>] have "children x' = children x"
        by (simp add: updatedItem_def Let_def children_def)
      then show ?thesis by (simp add: list.rel_refl)
    qed
  qed
  from head sub rest x'(1) show ?case
    by (simp add: nodes_Cons list_all2_appendI)
qed

text \<open>
  C2 (as amended). On a tree whose ids are unique, the changes collected by an edit of
  an existing target have one entry for the target, one for each descendant of the
  target and one for each ancestor, whether or not the pair of that node changed; every
  node without an entry has the view and download it had before the edit. So every
  node whose pair changed has an entry, and unchanged nodes among the target, its
  descendants and its ancestors have one too.
\<close>

theorem diff_entries:
  assumes "findItemAndParents (data st) targetId [] = Some (item, parents)"
    and "distinct (map item_id (nodes (data st)))"
  shows "dom (editDiff st targetId newPermissions)
           = insert targetId (item_id ` set (nodes (children item)) \<union> item_id ` set parents)
         \<and> list_all2
             (\<lambda>old new. item_id new = item_id old
                \<and> (item_id old \<notin> dom (editDiff st targetId newPermissions)
                     \<longrightarrow> view (permissions new) = view (permissions old)
                       \<and> download (permissions new) = download (permissions old)))
             (nodes (data st)) (nodes (data (updatePermissions st targetId newPermissions)))"
proof -
  let ?up = "updatedPermissions newPermissions item"
  let ?D = "dom (editDiff st targetId newPermissions)"
  from find_target [OF assms(1)] have it: "item \<in> set (nodes (data st))" "item_id item = targetId"
    by simp_all
  have D: "?D = insert targetId (item_id ` set (nodes (children item)) \<union> item_id ` set parents)"
    using assms(1) it(2) by (simp add: editDiff_def dom_collectChanges)
  have only: "\<forall>n\<in>set (nodes (data st)).
      item_id n = targetId \<longrightarrow> item_id ` set (nodes (children n)) \<subseteq> ?D"
  proof (intro ballI impI)
    fix n assume n: "n \<in> set (nodes (data st))" "item_id n = targetId"
    from assms(2) have "inj_on item_id (set (nodes (data st)))"
      by (simp add: distinct_map)
    with n it have "n = item" by (auto dest: inj_onD)
    then show "item_id ` set (nodes (children n)) \<subseteq> ?D" by (auto simp: D)
  qed
  have "list_all2 (\<lambda>old new. item_id new = item_id old
                \<and> (item_id old \<notin> ?D \<longrightarrow> permissions new = permissions old))
     (nodes (data st)) (nodes (updateItemInTree targetId parents ?up (data st)))"
    by (rule update_outside [OF _ _ only]) (auto simp: D)
  then have "list_all2
             (\<lambda>old new. item_id new = item_id old
                \<and> (item_id old \<notin> ?D
                     \<longrightarrow> view (permissions new) = view (permissions old)
                       \<and> download (permissions new) = download (permissions old)))
             (nodes (data st)) (nodes (updateItemInTree targetId parents ?up (data st)))"
    by (rule list_all2_mono) auto
  with D assms(1) show ?thesis
    by (simp add: updatePermissions_def Let_def)
qed

theorem diff_entries_witness:
  "dom (editDiff
     \<lparr>data = [exFolder ''f'' True False True [exDoc ''a'' True False, exDoc ''b'' False False],
              exDoc ''c'' False False],
      pendingChanges = Map.empty\<rparr> ''a'' [''view''])
   = {''a'', ''f''}"
  using diff_entries
    [of "\<lparr>data = [exFolder ''f'' True False True [exDoc ''a'' True False, exDoc ''b'' False False],
              exDoc ''c'' False False],
      pendingChanges = Map.empty\<rparr>" "''a''" "exDoc ''a'' True False"
      "[exFolder ''f'' True False True [exDoc ''a'' True False, exDoc ''b'' False False]]"
      "[''view'']"]
  by (simp add: exDoc_def exFolder_def children_def)

text \<open>
  The collected changes are not minimal: on the tree below the edit requests the view
  that document \<open>a\<close> already has, the tree after the edit is the tree before it, and
  the changes hold an entry for \<open>a\<close> and one for its folder.
\<close>

theorem diff_has_unchanged_entries:
  "data (updatePermissions
     \<lparr>data = [exFolder ''f'' True False True [exDoc ''a'' True False, exDoc ''b'' False False]],
      pendingChanges = Map.empty\<rparr> ''a'' [''view''])
   = [exFolder ''f'' True False True [exDoc ''a'' True False, exDoc ''b'' False False]]
   \<and> editDiff
     \<lparr>data = [exFolder ''f'' True False True [exDoc ''a'' True False, exDoc ''b'' False False]],
      pendingChanges = Map.empty\<rparr> ''a'' [''view''] ''a''
     = Some \<lparr>view = True, download = False, entryItemType = DATAROOM_DOCUMENT\<rparr>
   \<and> editDiff
     \<lparr>data = [exFolder ''f'' True False True [exDoc ''a'' True False, exDoc ''b'' False False]],
      pendingChanges = Map.empty\<rparr> ''a'' [''view''] ''f''
     = Some \<lparr>view = True, download = False, entryItemType = DATAROOM_FOLDER\<rparr>"
  by (simp add: exDoc_def exFolder_def updatePermissions_def updatedPermissions_def
        updatedItem_def updatedParent_def someViewable_def allViewable_def
        editDiff_def collectChanges_def children_def Let_def)

text \<open>
  An entry need not hold the pair that the node has after the edit. When view is turned
  off, the loop over \<open>parents\<close> reads the view of an ancestor's children from the tree
  before the edit, replacing that of the edited item only: below, folder \<open>r\<close> is not
  viewable after the edit, and its entry says it is.
\<close>

lemma stale_ancestor_entry:
  "editDiff
     \<lparr>data = [exFolder ''r'' True False False
                [exFolder ''f'' True False False [exDoc ''a'' True False]]],
      pendingChanges = Map.empty\<rparr> ''a'' [] ''r''
     = Some \<lparr>view = True, download = False, entryItemType = DATAROOM_FOLDER\<rparr>
   \<and> data (updatePermissions
       \<lparr>data = [exFolder ''r'' True False False
                  [exFolder ''f'' True False False [exDoc ''a'' True False]]],
        pendingChanges = Map.empty\<rparr> ''a'' [])
     = [exFolder ''r'' False False False
          [exFolder ''f'' False False False [exDoc ''a'' False False]]]"
  by (simp add: exDoc_def exFolder_def updatePermissions_def updatedPermissions_def
        updatedItem_def updatedParent_def someViewable_def allViewable_def
        editDiff_def collectChanges_def children_def Let_def)

section \<open>Repeating an edit\<close>

lemma updatedPermissions_requested:
  assumes "''download'' \<in> set req \<longrightarrow> ''view'' \<in> set req"
  shows "updatedPermissions req item = \<lparr>view = ''view'' \<in> set req, download = ''download'' \<in> set req\<rparr>"
  using assms by (auto simp: updatedPermissions_def Let_def)

text \<open>
  C3 (as amended). When the request does not ask for download without view, applying
  it to the same target a second time leaves the tree as the first edit left it. The
  changes collected for an existing target are never empty, whatever the request: the
  first call and the repeated call both collect the target's entry.
\<close>

theorem repeated_edit:
  "((''download'' \<in> set newPermissions \<longrightarrow> ''view'' \<in> set newPermissions)
      \<longrightarrow> data (updatePermissions (updatePermissions st targetId newPermissions)
                   targetId newPermissions)
          = data (updatePermissions st targetId newPermissions))
   \<and> (findItemAndParents (data st) targetId [] \<noteq> None
        \<longrightarrow> editDiff st targetId newPermissions targetId \<noteq> None
          \<and> editDiff (updatePermissions st targetId newPermissions)
                targetId newPermissions targetId \<noteq> None)"
proof (cases "findItemAndParents (data st) targetId []")
  case None
  then show ?thesis by (simp add: updatePermissions_def)
next
  case (Some r)
  obtain item parents where r: "r = (item, parents)" by (cases r)
  let ?up = "updatedPermissions newPermissions item"
  let ?f = "\<lambda>p. updatedParent p (updateItemInTree targetId parents ?up (children p))"
  let ?st1 = "updatePermissions st targetId newPermissions"
  from Some r have found: "findItemAndParents (data st) targetId [] = Some (item, parents)"
    by simp
  have d1: "data ?st1 = updateItemInTree targetId parents ?up (data st)"
    using found by (simp add: updatePermissions_def Let_def)
  have found1: "findItemAndParents (data ?st1) targetId []
      = Some (updatedItem ?up item, map ?f parents)"
    using find_update_top [OF found, of ?up] by (simp add: d1)
  have same: "data (updatePermissions ?st1 targetId newPermissions) = data ?st1"
    if req: "''download'' \<in> set newPermissions \<longrightarrow> ''view'' \<in> set newPermissions"
  proof -
    have ids: "item_id ` set (map ?f parents) = item_id ` set parents"
      by (simp add: image_image updatedParent_def Let_def)
    have again: "updatedPermissions newPermissions (updatedItem ?up item) = ?up"
      by (simp add: updatedPermissions_requested [OF req])
    have "data (updatePermissions ?st1 targetId newPermissions)
        = updateItemInTree targetId (map ?f parents) ?up (data ?st1)"
      using found1 again by (simp add: updatePermissions_def [of ?st1] Let_def)
    also have "\<dots> = updateItemInTree targetId parents ?up (data ?st1)"
      by (rule update_parents_cong [OF ids])
    also have "\<dots> = data ?st1"
      by (simp add: d1 update_idem)
    finally show ?thesis .
  qed
  have "targetId \<in> dom (editDiff ?st1 targetId newPermissions)"
    using found1 find_target [OF found]
    by (simp add: editDiff_def dom_collectChanges)
  then have second: "editDiff ?st1 targetId newPermissions targetId \<noteq> None"
    by blast
  have "targetId \<in> dom (editDiff st targetId newPermissions)"
    using found find_target [OF found]
    by (simp add: editDiff_def dom_collectChanges)
  then have first: "editDiff st targetId newPermissions targetId \<noteq> None"
    by blast
  from same first second show ?thesis by simp
qed

theorem repeated_edit_witness:
  "data (updatePermissions
           (updatePermissions
              \<lparr>data = [exFolder ''f'' True False True [exDoc ''a'' True True, exDoc ''b'' False False]],
               pendingChanges = Map.empty\<rparr> ''f'' [''view'']) ''f'' [''view''])
   = [exFolder ''f'' True False False [exDoc ''a'' True True, exDoc ''b'' True False]]
   \<and> editDiff
       (updatePermissions
          \<lparr>data = [exFolder ''f'' True False True [exDoc ''a'' True True, exDoc ''b'' False False]],
           pendingChanges = Map.empty\<rparr> ''f'' [''view''])
       ''f'' [''view''] ''f'' \<noteq> None"
  using repeated_edit
    [of "[''view'']"
        "\<lparr>data = [exFolder ''f'' True False True [exDoc ''a'' True True, exDoc ''b'' False False]],
          pendingChanges = Map.empty\<rparr>" "''f''"]
  by (simp add: exDoc_def exFolder_def updatePermissions_def updatedPermissions_def
        updatedItem_def children_def Let_def)

text \<open>
  The collected changes of a repeated edit are not empty: document \<open>a\<close> is viewable,
  the edit requests view, and both the first and the second call collect an entry for
  \<open>a\<close>.
\<close>

theorem repeated_edit_diff_not_empty:
  "findItemAndParents [exDoc ''a'' True False] ''a'' [] = Some (exDoc ''a'' True False, [])
   \<and> editDiff \<lparr>data = [exDoc ''a'' True False], pendingChanges = Map.empty\<rparr>
       ''a'' [''view''] ''a''
     = Some \<lparr>view = True, download = False, entryItemType = DATAROOM_DOCUMENT\<rparr>
   \<and> editDiff
       (updatePermissions \<lparr>data = [exDoc ''a'' True False], pendingChanges = Map.empty\<rparr>
          ''a'' [''view''])
       ''a'' [''view''] ''a''
     = Some \<lparr>view = True, download = False, entryItemType = DATAROOM_DOCUMENT\<rparr>"
  by (simp add: exDoc_def updatePermissions_def updatedPermissions_def updatedItem_def
        editDiff_def collectChanges_def Let_def)

text \<open>
  A request for download without view is not covered: the first special case reads the
  download the target has, so the same request grants both flags on a target without
  download and revokes both on the target it has just granted them to.
\<close>

lemma download_only_request_toggles:
  "data (updatePermissions \<lparr>data = [exDoc ''a'' False False], pendingChanges = Map.empty\<rparr>
           ''a'' [''download''])
     = [exDoc ''a'' True True]
   \<and> data (updatePermissions
             (updatePermissions \<lparr>data = [exDoc ''a'' False False], pendingChanges = Map.empty\<rparr>
                ''a'' [''download''])
             ''a'' [''download''])
     = [exDoc ''a'' False False]"
  by (simp add: exDoc_def updatePermissions_def updatedPermissions_def updatedItem_def Let_def)

section \<open>The tree that buildTree builds\<close>



















text \<open>A folder that is its own parent: the recursion on its id never ends, and no amount
  of fuel gives a tree.\<close>

lemma buildTree_cycle:
  "buildTree fuel
     [\<lparr>ti_id = ''x'', ti_parentId = Value ''x'', ti_folderId = Undefined, ti_name = ''X'',
       ti_document = None, ti_documents = None\<rparr>]
     perms (Some ''x'') = None"
  by (induction fuel) (simp_all add: parentIs_def)



section \<open>Saving the pending changes\<close>

text \<open>
  C8 (as amended). \<open>saveChanges\<close> empties the pending changes when the response is ok;
  after a response that is not ok, or a rejected request, the state is what it was, so
  a batch whose entries were pending is still pending. For a batch that is not empty
  and was taken from the pending changes, these are empty afterwards exactly when the
  response was ok. Whatever the outcome, the call sends the batch once and sends nothing
  else.
\<close>

theorem saveChanges_pending:
  "pendingChanges (after (saveChanges outcome changes st))
     = (if outcome = ResponseOk then Map.empty else pendingChanges st)
   \<and> (outcome \<noteq> ResponseOk \<longrightarrow> after (saveChanges outcome changes st) = st)
   \<and> (outcome \<noteq> ResponseOk \<longrightarrow> map_le changes (pendingChanges st)
        \<longrightarrow> map_le changes (pendingChanges (after (saveChanges outcome changes st))))
   \<and> (changes \<noteq> Map.empty \<longrightarrow> map_le changes (pendingChanges st)
        \<longrightarrow> (pendingChanges (after (saveChanges outcome changes st)) = Map.empty)
              = (outcome = ResponseOk))
   \<and> posted (saveChanges outcome changes st) = [changes]"
proof -
  have kept: "pendingChanges st \<noteq> Map.empty"
    if "changes \<noteq> Map.empty" and "map_le changes (pendingChanges st)"
  proof
    assume "pendingChanges st = Map.empty"
    with that(2) have "map_le changes Map.empty" by simp
    then have "changes = Map.empty" by (rule map_le_antisym) simp
    with that(1) show False by simp
  qed
  show ?thesis
    using kept by (cases outcome) (auto simp: saveChanges_def)
qed

theorem saveChanges_pending_witness:
  "map_le [''a'' \<mapsto> \<lparr>view = True, download = False, entryItemType = DATAROOM_DOCUMENT\<rparr>]
     (pendingChanges (after (saveChanges ResponseNotOk
        [''a'' \<mapsto> \<lparr>view = True, download = False, entryItemType = DATAROOM_DOCUMENT\<rparr>]
        \<lparr>data = [exDoc ''a'' True False],
         pendingChanges =
           [''a'' \<mapsto> \<lparr>view = True, download = False, entryItemType = DATAROOM_DOCUMENT\<rparr>,
            ''b'' \<mapsto> \<lparr>view = False, download = False, entryItemType = DATAROOM_DOCUMENT\<rparr>]\<rparr>)))
   \<and> pendingChanges (after (saveChanges ResponseNotOk
        [''a'' \<mapsto> \<lparr>view = True, download = False, entryItemType = DATAROOM_DOCUMENT\<rparr>]
        \<lparr>data = [exDoc ''a'' True False],
         pendingChanges =
           [''a'' \<mapsto> \<lparr>view = True, download = False, entryItemType = DATAROOM_DOCUMENT\<rparr>,
            ''b'' \<mapsto> \<lparr>view = False, download = False, entryItemType = DATAROOM_DOCUMENT\<rparr>]\<rparr>))
      \<noteq> Map.empty"
  using saveChanges_pending
    [of ResponseNotOk
        "[''a'' \<mapsto> \<lparr>view = True, download = False, entryItemType = DATAROOM_DOCUMENT\<rparr>]"
        "\<lparr>data = [exDoc ''a'' True False],
         pendingChanges =
           [''a'' \<mapsto> \<lparr>view = True, download = False, entryItemType = DATAROOM_DOCUMENT\<rparr>,
            ''b'' \<mapsto> \<lparr>view = False, download = False, entryItemType = DATAROOM_DOCUMENT\<rparr>]\<rparr>"]
  by (simp add: map_le_def)

text \<open>
  After a failed flush the batch is still pending: the entry that was sent is the entry
  that is found in \<open>pendingChanges\<close>.
\<close>

theorem failed_flush_keeps_batch:
  "pendingChanges (after (saveChanges ResponseNotOk
      [''a'' \<mapsto> \<lparr>view = True, download = False, entryItemType = DATAROOM_DOCUMENT\<rparr>]
      \<lparr>data = [exDoc ''a'' True False],
       pendingChanges = [''a'' \<mapsto> \<lparr>view = True, download = False,
                                    entryItemType = DATAROOM_DOCUMENT\<rparr>]\<rparr>)) ''a''
   = Some \<lparr>view = True, download = False, entryItemType = DATAROOM_DOCUMENT\<rparr>"
  by (simp add: saveChanges_def)

end
